theory Spec2Isabelle
  imports Main
begin

section \<open>Related-file finder: companion header and source lookup\<close>

text \<open>
  The development embeds the related-file finder of the sources
  (\<^verbatim>\<open>searchFileWithBasename\<close>, \<^verbatim>\<open>getFrameworkStructure\<close>,
  \<^verbatim>\<open>getRelatedHeaderForSourceFromFramework\<close>, \<^verbatim>\<open>getRelatedHeaderForSource\<close>,
  \<^verbatim>\<open>findSourceFileForHeader\<close>, \<^verbatim>\<open>findIncludingSourceFile\<close> and
  \<^verbatim>\<open>processGrepResult\<close>).

  Strings are JavaScript strings whose code units are below 256. A promise is a value of
  the type \<open>promise\<close>: resolved with a value, rejected with an error, or pending for ever.
  \<^verbatim>\<open>null\<close> and \<^verbatim>\<open>undefined\<close> are both \<open>None\<close>: the sources only ever test
  \<^verbatim>\<open>== null\<close> and \<^verbatim>\<open>!= null\<close>, which do not tell them apart.
\<close>

subsection \<open>Errors and promises\<close>

datatype error = TypeError | TimeoutError | Failure string

datatype 'a promise = Resolved 'a | Rejected error | Pending

subsection \<open>The path library\<close>

text \<open>
  Modelled from the spec: the path library \<^verbatim>\<open>nuclideUri\<close> (join, normalize, relative,
  dirname, basename, split) is imported by the sources and is not part of them. The spec
  asks for semantics "consistent with the host filesystem"; the model is that of local
  POSIX paths, the separator being \<open>/\<close>, as the \<^verbatim>\<open>path.posix\<close> functions that
  \<^verbatim>\<open>nuclideUri\<close> wraps compute them.
\<close>

text \<open>Modelled from the spec: the separator of the segments of a path.\<close>

definition sep :: char where
  "sep = CHR ''/''"

text \<open>
  Modelled from the spec: the pieces of a string between the occurrences of a character,
  and the pieces put together again around a delimiter.
\<close>

fun splitOn :: "char \<Rightarrow> string \<Rightarrow> string list" where
  "splitOn c [] = [[]]"
| "splitOn c (x # xs) =
     (if x = c then [] # splitOn c xs
      else (case splitOn c xs of
              [] \<Rightarrow> [[x]]
            | s # ss \<Rightarrow> (x # s) # ss))"

fun joinWith :: "string \<Rightarrow> string list \<Rightarrow> string" where
  "joinWith d [] = []"
| "joinWith d [s] = s"
| "joinWith d (s # t # ss) = s @ d @ joinWith d (t # ss)"

text \<open>
  Modelled from the spec: the segment walk of normalisation. Empty segments and \<open>.\<close> are dropped, \<open>..\<close> removes
  the segment before it, or is kept when there is none and the path is relative. The
  accumulator holds the segments kept so far, the last one first.
\<close>

fun normalizeSegments :: "bool \<Rightarrow> string list \<Rightarrow> string list \<Rightarrow> string list" where
  "normalizeSegments allowAboveRoot acc [] = rev acc"
| "normalizeSegments allowAboveRoot acc (s # ss) =
     (if s = [] \<or> s = ''.'' then normalizeSegments allowAboveRoot acc ss
      else if s = ''..'' then
        (case acc of
           [] \<Rightarrow> normalizeSegments allowAboveRoot (if allowAboveRoot then [''..''] else []) ss
         | a # as \<Rightarrow>
             if a = ''..'' then normalizeSegments allowAboveRoot (''..'' # acc) ss
             else normalizeSegments allowAboveRoot as ss)
      else normalizeSegments allowAboveRoot (s # acc) ss)"

text \<open>Modelled from the spec: a path is absolute when it starts with the separator.\<close>

definition isAbsolute :: "string \<Rightarrow> bool" where
  "isAbsolute p = (case p of [] \<Rightarrow> False | c # _ \<Rightarrow> c = sep)"

text \<open>
  Modelled from the spec: \<^verbatim>\<open>normalize\<close>. The empty path is \<open>.\<close>; the root of an absolute
  path and a trailing separator are kept around the normalised segments.
\<close>

definition normalize :: "string \<Rightarrow> string" where
  "normalize p =
     (if p = [] then ''.''
      else
        let abs = isAbsolute p;
            trailingSeparator = (last p = sep);
            path = joinWith [sep] (normalizeSegments (\<not> abs) [] (splitOn sep p));
            path1 = (if path = [] \<and> \<not> abs then ''.'' else path);
            path2 = (if path1 \<noteq> [] \<and> trailingSeparator then path1 @ [sep] else path1)
        in if abs then sep # path2 else path2)"

text \<open>
  Modelled from the spec: \<^verbatim>\<open>join(...args)\<close>, the non-empty arguments joined with the
  separator, then normalised.
\<close>

definition pathJoin :: "string list \<Rightarrow> string" where
  "pathJoin args =
     (let joined = joinWith [sep] (filter (\<lambda>a. a \<noteq> []) args)
      in if joined = [] then ''.'' else normalize joined)"

text \<open>
  Modelled from the spec: \<^verbatim>\<open>dirname\<close>. Trailing separators are skipped, then the last
  component; what is left of the last separator before it is the result.
\<close>

definition dirname :: "string \<Rightarrow> string" where
  "dirname p =
     (case p of
        [] \<Rightarrow> ''.''
      | c # rest \<Rightarrow>
          let r = dropWhile (\<lambda>x. x \<noteq> sep) (dropWhile (\<lambda>x. x = sep) (rev rest))
          in if r = [] then (if c = sep then [sep] else ''.'')
             else if c = sep \<and> length r = 1 then [sep, sep]
             else c # rev (tl r))"

text \<open>
  Modelled from the spec: \<^verbatim>\<open>basename\<close>, the last component of a path, trailing
  separators apart.
\<close>

definition basename :: "string \<Rightarrow> string" where
  "basename p = rev (takeWhile (\<lambda>x. x \<noteq> sep) (dropWhile (\<lambda>x. x = sep) (rev p)))"

text \<open>
  Modelled from the spec: \<^verbatim>\<open>relative(from, to)\<close>. Both paths are resolved to their segments below the root (a
  relative path is resolved against the working directory, taken to be the root here);
  the result climbs out of what is left of \<open>from\<close> after the common prefix and descends
  into what is left of \<open>to\<close>.
\<close>

definition resolveSegments :: "string \<Rightarrow> string list" where
  "resolveSegments p = normalizeSegments False [] (splitOn sep p)"

fun commonPrefixLength :: "string list \<Rightarrow> string list \<Rightarrow> nat" where
  "commonPrefixLength (x # xs) (y # ys) = (if x = y then Suc (commonPrefixLength xs ys) else 0)"
| "commonPrefixLength _ _ = 0"

definition relative :: "string \<Rightarrow> string \<Rightarrow> string" where
  "relative from to =
     (let f = resolveSegments from;
          t = resolveSegments to;
          n = commonPrefixLength f t
      in joinWith [sep] (replicate (length f - n) ''..'' @ drop n t))"

text \<open>
  Modelled from the spec: \<^verbatim>\<open>split\<close>, the segments of a path, from the outermost to the
  innermost; the root \<open>/\<close> is the first segment of an absolute path.
\<close>

definition split :: "string \<Rightarrow> string list" where
  "split p = (if isAbsolute p then [[sep]] else []) @ filter (\<lambda>s. s \<noteq> []) (splitOn sep p)"

subsection \<open>File classification\<close>

text \<open>
  Modelled from the spec: \<^verbatim>\<open>isHeaderFile\<close>, \<^verbatim>\<open>isSourceFile\<close> and
  \<^verbatim>\<open>getFileBasename\<close> are imported from \<^verbatim>\<open>./utils\<close>, which is not part of the
  sources. The spec's Path Classifier: the role is a table lookup on the lower-cased
  extension of the file's name (\<open>.h\<close>, \<open>.hpp\<close> are headers; \<open>.c\<close>, \<open>.cpp\<close>, \<open>.m\<close>,
  \<open>.mm\<close> are sources; anything else is neither), and the basename is the file's name
  with its extension stripped.
\<close>

text \<open>Modelled from the spec: the table of the extensions of each role.\<close>

definition HEADER_EXTENSIONS :: "string list" where
  "HEADER_EXTENSIONS = [''.h'', ''.hpp'']"

definition SOURCE_EXTENSIONS :: "string list" where
  "SOURCE_EXTENSIONS = [''.c'', ''.cpp'', ''.m'', ''.mm'']"

text \<open>Modelled from the spec: the lower-case form of a character.\<close>

definition toLowerChar :: "char \<Rightarrow> char" where
  "toLowerChar c =
     (let n = (of_char c :: nat)
      in if 65 \<le> n \<and> n \<le> 90 then char_of (n + 32) else c)"

definition dot :: char where
  "dot = CHR ''.''"

text \<open>
  Modelled from the spec: the extension of a file name, from its last dot on, empty when
  it has no dot; and the name without it.
\<close>

definition extensionOf :: "string \<Rightarrow> string" where
  "extensionOf name =
     (if dot \<in> set name then dot # rev (takeWhile (\<lambda>x. x \<noteq> dot) (rev name)) else [])"

definition stripExtension :: "string \<Rightarrow> string" where
  "stripExtension name =
     (if dot \<in> set name then rev (tl (dropWhile (\<lambda>x. x \<noteq> dot) (rev name))) else name)"

text \<open>
  Modelled from the spec: \<^verbatim>\<open>isHeaderFile\<close>, \<^verbatim>\<open>isSourceFile\<close> and
  \<^verbatim>\<open>getFileBasename\<close> of \<^verbatim>\<open>./utils\<close>, on the name of the file of a path.
\<close>

definition isHeaderFile :: "string \<Rightarrow> bool" where
  "isHeaderFile file = (map toLowerChar (extensionOf (basename file)) \<in> set HEADER_EXTENSIONS)"

definition isSourceFile :: "string \<Rightarrow> bool" where
  "isSourceFile file = (map toLowerChar (extensionOf (basename file)) \<in> set SOURCE_EXTENSIONS)"

definition getFileBasename :: "string \<Rightarrow> string" where
  "getFileBasename file = stripExtension (basename file)"

subsection \<open>The directory probe\<close>

text \<open>
  \<^verbatim>\<open>fsPromise.readdir\<close> is the environment: a function from a directory to the promise
  of its entry names. \<^verbatim>\<open>.catch(() => [])\<close> turns a rejected listing into no entries.
\<close>

type_synonym readdir = "string \<Rightarrow> string list promise"

fun firstMatch :: "string \<Rightarrow> string \<Rightarrow> (string \<Rightarrow> bool) \<Rightarrow> string list \<Rightarrow> string option" where
  "firstMatch dir base condition [] = None"
| "firstMatch dir base condition (file # files) =
     (if condition file \<and> getFileBasename file = base then Some (pathJoin [dir, file])
      else firstMatch dir base condition files)"

definition searchFileWithBasename ::
  "readdir \<Rightarrow> string \<Rightarrow> string \<Rightarrow> (string \<Rightarrow> bool) \<Rightarrow> string option promise" where
  "searchFileWithBasename readdir dir base condition =
     (case readdir dir of
        Resolved files \<Rightarrow> Resolved (firstMatch dir base condition files)
      | Rejected e \<Rightarrow> Resolved (firstMatch dir base condition [])
      | Pending \<Rightarrow> Pending)"

subsection \<open>The framework structure\<close>

record frameworkStructure =
  frameworkPath :: string
  frameworkName :: string
  frameworkSubFolder :: string

text \<open>\<^verbatim>\<open>Array.prototype.findIndex\<close>: the first index whose element passes, if any.\<close>

fun findIndex :: "('a \<Rightarrow> bool) \<Rightarrow> 'a list \<Rightarrow> nat option" where
  "findIndex P [] = None"
| "findIndex P (x # xs) =
     (if P x then Some 0 else map_option Suc (findIndex P xs))"

text \<open>
  \<^verbatim>\<open>paths[sourcesIndex + 1]\<close> is \<^verbatim>\<open>undefined\<close> exactly when
  \<^verbatim>\<open>paths.slice(sourcesIndex + 1)\<close> is empty; \<^verbatim>\<open>nuclideUri.join\<close> is then called
  without its first argument and fails on it, which is the \<open>TypeError\<close> branch.
\<close>

definition getFrameworkStructure :: "string \<Rightarrow> error + frameworkStructure option" where
  "getFrameworkStructure dir =
     (let paths = rev (split dir)
      in case findIndex (\<lambda>folderName. folderName = ''Sources'') paths of
           None \<Rightarrow> Inr None
         | Some sourcesIndex \<Rightarrow>
             (case drop (sourcesIndex + 1) paths of
                [] \<Rightarrow> Inl TypeError
              | name # outer \<Rightarrow>
                  let frameworkSubPaths = take sourcesIndex paths
                  in Inr (Some \<lparr>
                       frameworkPath = pathJoin (rev (name # outer)),
                       frameworkName = name,
                       frameworkSubFolder =
                         (if length frameworkSubPaths = 0 then ''''
                          else pathJoin (rev frameworkSubPaths)) \<rparr>)))"

subsection \<open>The header of a source file\<close>

text \<open>
  \<^verbatim>\<open>Promise.all\<close>: rejected as soon as one promise is, pending while one is pending,
  resolved with all the values otherwise.
\<close>

fun promiseAll :: "'a promise list \<Rightarrow> 'a list promise" where
  "promiseAll [] = Resolved []"
| "promiseAll (p # ps) =
     (case p of
        Rejected e \<Rightarrow> Rejected e
      | Pending \<Rightarrow> (case promiseAll ps of Rejected e \<Rightarrow> Rejected e | _ \<Rightarrow> Pending)
      | Resolved v \<Rightarrow>
          (case promiseAll ps of
             Resolved vs \<Rightarrow> Resolved (v # vs)
           | Rejected e \<Rightarrow> Rejected e
           | Pending \<Rightarrow> Pending))"

text \<open>\<^verbatim>\<open>headers.find(file => file != null)\<close>: the first element that is not null, if any.\<close>

fun findNonNull :: "'a option list \<Rightarrow> 'a option" where
  "findNonNull [] = None"
| "findNonNull (None # files) = findNonNull files"
| "findNonNull (Some file # files) = Some file"

definition headerFolderPath :: "frameworkStructure \<Rightarrow> string \<Rightarrow> string" where
  "headerFolderPath fs headerFolder =
     pathJoin [frameworkPath fs, headerFolder, frameworkName fs, frameworkSubFolder fs]"

definition getRelatedHeaderForSourceFromFramework ::
  "readdir \<Rightarrow> string \<Rightarrow> string option promise" where
  "getRelatedHeaderForSourceFromFramework readdir src =
     (case getFrameworkStructure (dirname src) of
        Inl e \<Rightarrow> Rejected e
      | Inr None \<Rightarrow> Resolved None
      | Inr (Some fs) \<Rightarrow>
          (case promiseAll
                  (map (\<lambda>headerFolder.
                          searchFileWithBasename readdir (headerFolderPath fs headerFolder)
                            (getFileBasename src) isHeaderFile)
                       [''Headers'', ''PrivateHeaders'']) of
             Resolved headers \<Rightarrow> Resolved (findNonNull headers)
           | Rejected e \<Rightarrow> Rejected e
           | Pending \<Rightarrow> Pending))"

definition getRelatedHeaderForSource :: "readdir \<Rightarrow> string \<Rightarrow> string option promise" where
  "getRelatedHeaderForSource readdir src =
     (case searchFileWithBasename readdir (dirname src) (getFileBasename src) isHeaderFile of
        Resolved (Some header) \<Rightarrow> Resolved (Some header)
      | Resolved None \<Rightarrow> getRelatedHeaderForSourceFromFramework readdir src
      | Rejected e \<Rightarrow> Rejected e
      | Pending \<Rightarrow> Pending)"

subsection \<open>The include pattern\<close>

text \<open>
  The pattern of \<^verbatim>\<open>findIncludingSourceFile\<close> is
  \<^verbatim>\<open>^\s*#include\s+["<](R|(../)*B)[">]\s*$\<close>, where \<open>R\<close> and \<open>B\<close> are the header's
  path relative to the project root and the header's file name, both escaped by
  \<^verbatim>\<open>escapeStringRegExp\<close> and therefore matched literally. A compiled pattern is the
  pair of these two literals; \<open>regexExec\<close> is \<^verbatim>\<open>RegExp.prototype.exec\<close> on it and
  returns the captures \<^verbatim>\<open>match[1]\<close> and \<^verbatim>\<open>match[2]\<close>. The dots of \<^verbatim>\<open>(../)*\<close> are
  not escaped in the sources: each matches any character that is not a line terminator.
  The star is greedy: more repetitions are tried first, and the second capture is its
  last repetition, undefined when there is none.
\<close>

record includeRegex =
  relativePathLiteral :: string
  basenameLiteral :: string

definition NUL :: char where
  "NUL = CHR 0x00"

definition dquote :: char where
  "dquote = CHR 0x22"

definition isSpace :: "char \<Rightarrow> bool" where
  "isSpace c = (c \<in> set [CHR 0x09, CHR 0x0A, CHR 0x0B, CHR 0x0C, CHR 0x0D, CHR 0x20, CHR 0xA0])"

definition isLineTerminator :: "char \<Rightarrow> bool" where
  "isLineTerminator c = (c = CHR 0x0A \<or> c = CHR 0x0D)"

text \<open>\<^verbatim>\<open>[">]\s*$\<close>\<close>

fun matchClose :: "string \<Rightarrow> bool" where
  "matchClose [] = False"
| "matchClose (c # cs) = ((c = dquote \<or> c = CHR ''>'') \<and> list_all isSpace cs)"

text \<open>A literal followed by \<^verbatim>\<open>[">]\s*$\<close>\<close>

definition matchLiteral :: "string \<Rightarrow> string \<Rightarrow> bool" where
  "matchLiteral lit s = (take (length lit) s = lit \<and> matchClose (drop (length lit) s))"

text \<open>\<^verbatim>\<open>(../)*B[">]\s*$\<close>: the text matched by \<^verbatim>\<open>(../)*B\<close> and the second capture.\<close>

fun matchAscents :: "string \<Rightarrow> string \<Rightarrow> (string \<times> string option) option" where
  "matchAscents base (a # b # c # s) =
     (if \<not> isLineTerminator a \<and> \<not> isLineTerminator b \<and> c = sep then
        (case matchAscents base s of
           Some (m1, m2) \<Rightarrow>
             Some (a # b # c # m1, Some (case m2 of None \<Rightarrow> [a, b, c] | Some g \<Rightarrow> g))
         | None \<Rightarrow>
             if matchLiteral base (a # b # c # s) then Some (base, None) else None)
      else if matchLiteral base (a # b # c # s) then Some (base, None) else None)"
| "matchAscents base s = (if matchLiteral base s then Some (base, None) else None)"

definition regexExec :: "includeRegex \<Rightarrow> string \<Rightarrow> (string \<times> string option) option" where
  "regexExec regex line =
     (let s1 = dropWhile isSpace line
      in if take 8 s1 \<noteq> ''#include'' then None
         else
           let s2 = drop 8 s1;
               s3 = dropWhile isSpace s2
           in if length s3 = length s2 then None
              else
                (case s3 of
                   [] \<Rightarrow> None
                 | q # s4 \<Rightarrow>
                     if q \<noteq> dquote \<and> q \<noteq> CHR ''<'' then None
                     else if matchLiteral (relativePathLiteral regex) s4
                       then Some (relativePathLiteral regex, None)
                     else matchAscents (basenameLiteral regex) s4))"

subsection \<open>A line of the scan\<close>

definition processGrepResult :: "string \<Rightarrow> string \<Rightarrow> includeRegex \<Rightarrow> string option" where
  "processGrepResult result headerFile regex =
     (if NUL \<notin> set result then None
      else
        let filename = takeWhile (\<lambda>c. c \<noteq> NUL) result
        in if \<not> isSourceFile filename then None
           else
             (case regexExec regex (tl (dropWhile (\<lambda>c. c \<noteq> NUL) result)) of
                None \<Rightarrow> None
              | Some (m1, m2) \<Rightarrow>
                  if m2 \<noteq> None \<and> normalize (pathJoin [dirname filename, m1]) \<noteq> headerFile
                  then None
                  else Some filename))"

subsection \<open>Observables\<close>

text \<open>
  An observable is the list of its notifications, each with the time in milliseconds
  since subscription at which it arrives, in the order of their arrival. Nothing arrives
  after an \<open>Error\<close> or a \<open>Complete\<close>; a list that ends without one of them is an
  observable that stays silent from then on.

  \<^verbatim>\<open>observeProcess\<close> is the environment: the notifications of the \<^verbatim>\<open>grep\<close> process
  are an argument of the model. Its messages are of kind \<^verbatim>\<open>stdout\<close> (one line of
  output, the file and the matched line separated by \<open>NUL\<close>), \<^verbatim>\<open>stderr\<close> and
  \<^verbatim>\<open>exit\<close>; the kind \<^verbatim>\<open>error\<close> is the one that \<^verbatim>\<open>findIncludingSourceFile\<close> makes
  of a failure of the process.
\<close>

datatype 'a notification = Next 'a | Error error | Complete

type_synonym 'a observable = "(nat \<times> 'a notification) list"

datatype message = Stdout string | Stderr string | Exit | ErrorMessage error

text \<open>\<^verbatim>\<open>.catch(error => Observable.of({kind: 'error', error}))\<close>\<close>

fun catchAsMessage :: "message observable \<Rightarrow> message observable" where
  "catchAsMessage [] = []"
| "catchAsMessage ((t, Next m) # ns) = (t, Next m) # catchAsMessage ns"
| "catchAsMessage ((t, Error e) # ns) = [(t, Next (ErrorMessage e)), (t, Complete)]"
| "catchAsMessage ((t, Complete) # ns) = [(t, Complete)]"

text \<open>\<^verbatim>\<open>String(error)\<close>, the message of the error thrown for a message of kind \<^verbatim>\<open>error\<close>.\<close>

fun errorToString :: "error \<Rightarrow> string" where
  "errorToString TypeError = ''TypeError''"
| "errorToString TimeoutError = ''TimeoutError''"
| "errorToString (Failure m) = m"

text \<open>
  \<^verbatim>\<open>.flatMap(message => ...)\<close>: the inner observables are \<^verbatim>\<open>of\<close>, \<^verbatim>\<open>empty\<close> or a
  throw, so each message yields at once one value, nothing, or an error that ends the
  stream.
\<close>

fun flatMapMessages :: "string \<Rightarrow> includeRegex \<Rightarrow> message observable \<Rightarrow> string option observable" where
  "flatMapMessages headerFile regex [] = []"
| "flatMapMessages headerFile regex ((t, Next m) # ns) =
     (case m of
        Stdout data \<Rightarrow>
          (case processGrepResult data headerFile regex of
             None \<Rightarrow> flatMapMessages headerFile regex ns
           | Some file \<Rightarrow> (t, Next (Some file)) # flatMapMessages headerFile regex ns)
      | ErrorMessage e \<Rightarrow> [(t, Error (Failure (errorToString e)))]
      | Exit \<Rightarrow> (t, Next None) # flatMapMessages headerFile regex ns
      | Stderr data \<Rightarrow> flatMapMessages headerFile regex ns)"
| "flatMapMessages headerFile regex ((t, Error e) # ns) = [(t, Error e)]"
| "flatMapMessages headerFile regex ((t, Complete) # ns) = [(t, Complete)]"

text \<open>\<^verbatim>\<open>.take(1)\<close>\<close>

fun takeOne :: "'a observable \<Rightarrow> 'a observable" where
  "takeOne [] = []"
| "takeOne ((t, Next v) # ns) = [(t, Next v), (t, Complete)]"
| "takeOne ((t, Error e) # ns) = [(t, Error e)]"
| "takeOne ((t, Complete) # ns) = [(t, Complete)]"

text \<open>The pattern compiled for a header and a project root.\<close>

definition includePattern :: "string \<Rightarrow> string \<Rightarrow> includeRegex" where
  "includePattern headerFile projectRoot =
     \<lparr> relativePathLiteral = relative projectRoot headerFile,
       basenameLiteral = basename headerFile \<rparr>"

definition findIncludingSourceFile ::
  "message observable \<Rightarrow> string \<Rightarrow> string \<Rightarrow> string option observable" where
  "findIncludingSourceFile grepProcess headerFile projectRoot =
     (let regex = includePattern headerFile projectRoot
      in takeOne (flatMapMessages headerFile regex (catchAsMessage grepProcess)))"

subsection \<open>The source of a header\<close>

definition INCLUDE_SEARCH_TIMEOUT :: nat where
  "INCLUDE_SEARCH_TIMEOUT = 15000"

text \<open>
  \<^verbatim>\<open>.timeout(due)\<close>: a \<open>TimeoutError\<close> once \<open>due\<close> milliseconds have passed since the
  subscription or the last value without a notification. The second argument is the
  time of the subscription or of the last value.
\<close>

fun timeout :: "nat \<Rightarrow> nat \<Rightarrow> 'a observable \<Rightarrow> 'a observable" where
  "timeout due since [] = [(since + due, Error TimeoutError)]"
| "timeout due since ((t, n) # ns) =
     (if since + due \<le> t then [(since + due, Error TimeoutError)]
      else (case n of
              Next v \<Rightarrow> (t, Next v) # timeout due t ns
            | Error e \<Rightarrow> [(t, Error e)]
            | Complete \<Rightarrow> [(t, Complete)]))"

text \<open>\<^verbatim>\<open>.catch(() => Observable.of(null))\<close>\<close>

fun catchAsNull :: "'a option observable \<Rightarrow> 'a option observable" where
  "catchAsNull [] = []"
| "catchAsNull ((t, Next v) # ns) = (t, Next v) # catchAsNull ns"
| "catchAsNull ((t, Error e) # ns) = [(t, Next None), (t, Complete)]"
| "catchAsNull ((t, Complete) # ns) = [(t, Complete)]"

text \<open>
  \<^verbatim>\<open>.toPromise()\<close>: resolved at completion with the last value (undefined when there
  was none), rejected at an error, pending while neither has come.
\<close>

fun toPromise :: "'a option \<Rightarrow> 'a option observable \<Rightarrow> 'a option promise" where
  "toPromise lastValue [] = Pending"
| "toPromise lastValue ((t, Next v) # ns) = toPromise v ns"
| "toPromise lastValue ((t, Error e) # ns) = Rejected e"
| "toPromise lastValue ((t, Complete) # ns) = Resolved lastValue"

definition findSourceFileForHeader ::
  "readdir \<Rightarrow> message observable \<Rightarrow> string \<Rightarrow> string \<Rightarrow> string option promise" where
  "findSourceFileForHeader readdir grepProcess header projectRoot =
     (case searchFileWithBasename readdir (dirname header) (getFileBasename header) isSourceFile of
        Resolved (Some source) \<Rightarrow> Resolved (Some source)
      | Resolved None \<Rightarrow>
          toPromise None
            (catchAsNull
               (timeout INCLUDE_SEARCH_TIMEOUT 0
                  (findIncludingSourceFile grepProcess header projectRoot)))
      | Rejected e \<Rightarrow> Rejected e
      | Pending \<Rightarrow> Pending)"

subsection \<open>Example trees and scans\<close>

text \<open>A directory tree given by the listing of each of its directories; any other listing fails.\<close>

definition treeOf :: "(string \<times> string list) list \<Rightarrow> readdir" where
  "treeOf t dir =
     (case map_of t dir of
        Some files \<Rightarrow> Resolved files
      | None \<Rightarrow> Rejected (Failure ''ENOENT''))"

text \<open>The files \<open>Fwk/Sources/Fwk/Sub/Foo.m\<close> and \<open>Fwk/Headers/Sub/Foo.h\<close>.\<close>

definition frameworkTree :: readdir where
  "frameworkTree = treeOf
     [(''Fwk'', [''Sources'', ''Headers'']),
      (''Fwk/Sources'', [''Fwk'']),
      (''Fwk/Sources/Fwk'', [''Sub'']),
      (''Fwk/Sources/Fwk/Sub'', [''Foo.m'']),
      (''Fwk/Headers'', [''Sub'']),
      (''Fwk/Headers/Sub'', [''Foo.h''])]"

text \<open>The files \<open>Fwk/Sources/Fwk/Sub/Foo.m\<close> and \<open>Fwk/Headers/Fwk/Fwk/Sub/Foo.h\<close>.\<close>

definition probedFrameworkTree :: readdir where
  "probedFrameworkTree = treeOf
     [(''Fwk'', [''Sources'', ''Headers'']),
      (''Fwk/Sources'', [''Fwk'']),
      (''Fwk/Sources/Fwk'', [''Sub'']),
      (''Fwk/Sources/Fwk/Sub'', [''Foo.m'']),
      (''Fwk/Headers'', [''Fwk'']),
      (''Fwk/Headers/Fwk'', [''Fwk'']),
      (''Fwk/Headers/Fwk/Fwk'', [''Sub'']),
      (''Fwk/Headers/Fwk/Fwk/Sub'', [''Foo.h''])]"

text \<open>
  The files \<open>Fwk/Sources/Sub/Foo.m\<close>, \<open>Fwk/Headers/Fwk/Sub/Foo.h\<close> and
  \<open>Fwk/PrivateHeaders/Fwk/Sub/Foo.hpp\<close>.
\<close>

definition bothHeadersTree :: readdir where
  "bothHeadersTree = treeOf
     [(''Fwk'', [''Sources'', ''Headers'', ''PrivateHeaders'']),
      (''Fwk/Sources'', [''Sub'']),
      (''Fwk/Sources/Sub'', [''Foo.m'']),
      (''Fwk/Headers'', [''Fwk'']),
      (''Fwk/Headers/Fwk'', [''Sub'']),
      (''Fwk/Headers/Fwk/Sub'', [''Foo.h'']),
      (''Fwk/PrivateHeaders'', [''Fwk'']),
      (''Fwk/PrivateHeaders/Fwk'', [''Sub'']),
      (''Fwk/PrivateHeaders/Fwk/Sub'', [''Foo.hpp''])]"

text \<open>The files \<open>proj/Foo.m\<close>, \<open>proj/Foo.h\<close> and \<open>proj/Foo.hpp\<close>, listed in this order.\<close>

definition siblingTree :: readdir where
  "siblingTree = treeOf [(''proj'', [''Foo.m'', ''Foo.h'', ''Foo.hpp''])]"

text \<open>
  A line of output of \<^verbatim>\<open>grep --null\<close>: the file, \<open>NUL\<close>, the matched line and its
  line feed.
\<close>

definition grepLine :: "string \<Rightarrow> string \<Rightarrow> string" where
  "grepLine filename line = filename @ NUL # line @ [CHR 0x0A]"

definition includeQuoted :: "string \<Rightarrow> string" where
  "includeQuoted path = ''#include '' @ dquote # path @ [dquote]"

definition includeAngled :: "string \<Rightarrow> string" where
  "includeAngled path = ''#include <'' @ path @ ''>''"

text \<open>A run of ascents to the parent directory.\<close>

fun ascents :: "nat \<Rightarrow> string" where
  "ascents 0 = []"
| "ascents (Suc k) = ''../'' @ ascents k"

text \<open>A scan that reports one line at time 1 and exits at time 2.\<close>

definition scanOf :: "string \<Rightarrow> string \<Rightarrow> message observable" where
  "scanOf filename line =
     [(1, Next (Stdout (grepLine filename line))), (2, Next Exit), (2, Complete)]"

subsection \<open>Notions used by the properties\<close>

text \<open>
  A notification of the process that yields nothing in \<^verbatim>\<open>findIncludingSourceFile\<close>: a
  line of output that is not accepted, or a message of kind \<^verbatim>\<open>stderr\<close>.
\<close>

fun yieldsNothing :: "string \<Rightarrow> includeRegex \<Rightarrow> nat \<times> message notification \<Rightarrow> bool" where
  "yieldsNothing headerFile regex (t, Next (Stdout data)) =
     (processGrepResult data headerFile regex = None)"
| "yieldsNothing headerFile regex (t, Next (Stderr data)) = True"
| "yieldsNothing headerFile regex (t, n) = False"

fun isNext :: "nat \<times> 'a notification \<Rightarrow> bool" where
  "isNext (t, Next v) = True"
| "isNext (t, n) = False"

text \<open>The first notification of an observable arrives before the given time.\<close>

fun arrivesBefore :: "nat \<Rightarrow> 'a observable \<Rightarrow> bool" where
  "arrivesBefore due [] = False"
| "arrivesBefore due ((t, n) # ns) = (t < due)"

subsection \<open>Example scans\<close>

text \<open>
  The header of the examples is \<open>root/a/b/x.h\<close> in the project \<open>root\<close>. A scan starts
  with a warning and a line of \<open>root/a/b/c/d/z.m\<close>, whose include of \<open>../x.h\<close> is that
  of another file.
\<close>

definition scanPrefix :: "message observable" where
  "scanPrefix =
     [(1, Next (Stderr ''grep: warning'')),
      (2, Next (Stdout (grepLine ''root/a/b/c/d/z.m'' (includeQuoted ''../x.h''))))]"

definition acceptedData :: string where
  "acceptedData = grepLine ''root/a/b/c/y.m'' (includeQuoted ''../x.h'')"

text \<open>The scan goes on with an accepted line, one more, and the exit of the process.\<close>

definition busyScan :: "message observable" where
  "busyScan =
     scanPrefix @ (3, Next (Stdout acceptedData))
       # [(4, Next (Stdout (grepLine ''root/a/b/w.m'' (includeAngled ''a/b/x.h'')))),
          (5, Next Exit), (5, Complete)]"

text \<open>The scan exits without an accepted line.\<close>

definition fruitlessScan :: "message observable" where
  "fruitlessScan = scanPrefix @ (5, Next Exit) # [(5, Complete)]"

text \<open>The process fails.\<close>

definition failingScan :: "message observable" where
  "failingScan = scanPrefix @ (3, Error (Failure ''spawn grep ENOENT'')) # []"

text \<open>The accepted line comes at the deadline.\<close>

definition lateScan :: "message observable" where
  "lateScan = [(15000, Next (Stdout acceptedData)), (15001, Next Exit), (15001, Complete)]"

text \<open>The directory of the header holds the header only.\<close>

definition headerOnlyTree :: readdir where
  "headerOnlyTree = treeOf [(''root'', [''a'']), (''root/a'', [''b'']), (''root/a/b'', [''x.h''])]"

section \<open>Properties\<close>

subsection \<open>The directory probe\<close>

text \<open>
  C8. When the listing of the directory fails, the probe behaves as on a directory
  without entries: its promise is resolved with null, whatever the basename and the
  condition are, and is not rejected.
\<close>

theorem searchFileWithBasename_unreadable:
  "readdir dir = Rejected e \<Longrightarrow>
   searchFileWithBasename readdir dir base condition = Resolved None"
  by (simp add: searchFileWithBasename_def)

theorem searchFileWithBasename_unreadable_witness:
  "frameworkTree ''Fwk/Missing'' = Rejected (Failure ''ENOENT'') \<and>
   searchFileWithBasename frameworkTree ''Fwk/Missing'' ''Foo'' isHeaderFile = Resolved None"
proof -
  have h: "frameworkTree ''Fwk/Missing'' = Rejected (Failure ''ENOENT'')"
    by code_simp
  show ?thesis
    using h searchFileWithBasename_unreadable
            [of frameworkTree "''Fwk/Missing''" "Failure ''ENOENT''" "''Foo''" isHeaderFile]
    by simp
qed

lemma firstMatch_skip:
  "\<forall>g \<in> set pre. \<not> (condition g \<and> getFileBasename g = base) \<Longrightarrow>
   firstMatch dir base condition (pre @ files) = firstMatch dir base condition files"
  by (induction pre) auto

lemma firstMatch_Some:
  "firstMatch dir base condition files = Some p \<Longrightarrow>
   \<exists>file \<in> set files. condition file \<and> getFileBasename file = base \<and> p = pathJoin [dir, file]"
  by (induction files) (auto split: if_splits)

lemma searchFileWithBasename_Some:
  assumes "searchFileWithBasename readdir dir base condition = Resolved (Some p)"
  shows "\<exists>file. condition file \<and> getFileBasename file = base \<and> p = pathJoin [dir, file]"
proof (cases "readdir dir")
  case (Resolved files)
  with assms have "firstMatch dir base condition files = Some p"
    by (simp add: searchFileWithBasename_def)
  then show ?thesis by (blast dest: firstMatch_Some)
next
  case (Rejected e)
  with assms show ?thesis by (simp add: searchFileWithBasename_def)
next
  case Pending
  with assms show ?thesis by (simp add: searchFileWithBasename_def)
qed

subsection \<open>Paths\<close>

text \<open>
  The last component of a path survives normalisation and joining, unless it is empty,
  \<open>.\<close> or \<open>..\<close>.
\<close>

lemma splitOn_nonempty: "splitOn c xs \<noteq> []"
  by (induction xs) (auto split: list.splits)

lemma splitOn_append_sep: "splitOn c (xs @ c # ys) = splitOn c xs @ splitOn c ys"
proof (induction xs)
  case Nil
  then show ?case by simp
next
  case (Cons x xs)
  obtain s ss where "splitOn c xs = s # ss"
    using splitOn_nonempty [of c xs] by (cases "splitOn c xs") auto
  with Cons show ?case by simp
qed

lemma splitOn_trailing: "c \<notin> set b \<Longrightarrow> splitOn c (b @ replicate k c) = b # replicate k []"
proof (induction b)
  case Nil
  show ?case by (induction k) auto
next
  case (Cons x b)
  then show ?case by auto
qed

lemma normalizeSegments_empties: "normalizeSegments a acc (replicate k []) = rev acc"
  by (induction k) auto

lemma joinWith_snoc:
  "joinWith d (ns @ [b]) = (if ns = [] then b else joinWith d ns @ d @ b)"
  by (induction d ns rule: joinWith.induct) auto

lemma normalizeSegments_append:
  "normalizeSegments a acc (ss @ ts) = normalizeSegments a (rev (normalizeSegments a acc ss)) ts"
proof (induction ss arbitrary: acc)
  case Nil
  then show ?case by simp
next
  case (Cons s ss)
  show ?case
  proof (cases "s = [] \<or> s = ''.''")
    case True
    then show ?thesis using Cons.IH [of acc] by auto
  next
    case skip: False
    show ?thesis
    proof (cases "s = ''..''")
      case False
      then show ?thesis using skip Cons.IH [of "s # acc"] by simp
    next
      case True
      show ?thesis
      proof (cases acc)
        case Nil
        then show ?thesis
          using True Cons.IH [of "if a then [''..''] else []"] by simp
      next
        case (Cons b bs)
        then show ?thesis
          using True Cons.IH [of "''..'' # acc"] Cons.IH [of bs] by auto
      qed
    qed
  qed
qed

lemma normalizeSegments_last:
  assumes "b \<noteq> []" "b \<noteq> ''.''" "b \<noteq> ''..''"
  shows "normalizeSegments a [] (ss @ b # replicate k []) = normalizeSegments a [] ss @ [b]"
  using assms by (simp add: normalizeSegments_append [of a "[]" ss] normalizeSegments_empties)

lemma basename_shape:
  assumes "b \<noteq> []" "sep \<notin> set b" "x = [] \<or> last x = sep"
  shows "basename (x @ b @ replicate k sep) = b"
proof -
  have 1: "dropWhile (\<lambda>c. c = sep) (replicate k sep @ rev b @ rev x) = rev b @ rev x"
  proof -
    have "dropWhile (\<lambda>c. c = sep) (replicate k sep @ rev b @ rev x)
            = dropWhile (\<lambda>c. c = sep) (rev b @ rev x)"
      by (rule dropWhile_append2) auto
    moreover have "hd (rev b) \<noteq> sep"
      using assms(1,2) by (metis hd_rev last_in_set)
    ultimately show ?thesis
      using assms(1) by (cases "rev b") auto
  qed
  have 2: "takeWhile (\<lambda>c. c \<noteq> sep) (rev b @ rev x) = rev b"
  proof -
    have "takeWhile (\<lambda>c. c \<noteq> sep) (rev b @ rev x) = rev b @ takeWhile (\<lambda>c. c \<noteq> sep) (rev x)"
      by (rule takeWhile_append2) (use assms(2) in auto)
    moreover have "takeWhile (\<lambda>c. c \<noteq> sep) (rev x) = []"
      using assms(3) by (cases x rule: rev_cases) auto
    ultimately show ?thesis by simp
  qed
  show ?thesis
    by (simp add: basename_def 1 2)
qed

lemma all_same_replicate: "\<forall>c \<in> set xs. c = a \<Longrightarrow> xs = replicate (length xs) a"
  by (induction xs) auto

lemma basename_decompose:
  assumes "basename q = b" "b \<noteq> []"
  shows "\<exists>x k. q = x @ b @ replicate k sep \<and> sep \<notin> set b \<and> (x = [] \<or> last x = sep)"
proof -
  define tw where "tw = takeWhile (\<lambda>c. c = sep) (rev q)"
  define r1 where "r1 = dropWhile (\<lambda>c. c = sep) (rev q)"
  define r2 where "r2 = dropWhile (\<lambda>c. c \<noteq> sep) r1"
  have b: "rev b = takeWhile (\<lambda>c. c \<noteq> sep) r1"
    using assms(1) by (auto simp: basename_def r1_def)
  have "rev q = tw @ r1" by (simp add: tw_def r1_def)
  moreover have "r1 = rev b @ r2" by (simp add: b r2_def)
  ultimately have "rev q = tw @ rev b @ r2" by simp
  then have "rev (rev q) = rev (tw @ rev b @ r2)" by (rule arg_cong)
  then have q: "q = rev r2 @ b @ rev tw" by simp
  have "\<forall>c \<in> set (rev tw). c = sep"
    by (auto simp: tw_def dest: set_takeWhileD)
  then have "rev tw = replicate (length (rev tw)) sep"
    by (rule all_same_replicate)
  then have tw: "rev tw = replicate (length tw) sep" by simp
  have "sep \<notin> set (rev b)" unfolding b by (auto dest: set_takeWhileD)
  then have nb: "sep \<notin> set b" by simp
  have x: "rev r2 = [] \<or> last (rev r2) = sep"
  proof (cases r2)
    case Nil
    then show ?thesis by simp
  next
    case (Cons c cs)
    have "\<not> (hd r2 \<noteq> sep)"
      unfolding r2_def by (rule hd_dropWhile) (use Cons r2_def in auto)
    with Cons show ?thesis by (simp add: last_rev)
  qed
  have "q = rev r2 @ b @ replicate (length tw) sep"
    using q tw by simp
  with nb x show ?thesis by blast
qed

lemma splitOn_shape:
  assumes "sep \<notin> set b" "x = [] \<or> last x = sep"
  shows "\<exists>ss. splitOn sep (x @ b @ replicate k sep) = ss @ b # replicate k []"
proof (cases x rule: rev_cases)
  case Nil
  then have "splitOn sep (x @ b @ replicate k sep) = [] @ b # replicate k []"
    using splitOn_trailing [OF assms(1)] by simp
  then show ?thesis by (rule exI)
next
  case (snoc y c)
  with assms(2) have "c = sep" by simp
  with snoc have "splitOn sep (x @ b @ replicate k sep) = splitOn sep y @ b # replicate k []"
    using splitOn_append_sep [of sep y "b @ replicate k sep"] splitOn_trailing [OF assms(1)]
    by simp
  then show ?thesis by (rule exI)
qed

lemma basename_normalize:
  assumes "basename q = b" "b \<noteq> []" "b \<noteq> ''.''" "b \<noteq> ''..''"
  shows "basename (normalize q) = b"
proof -
  obtain x k where q: "q = x @ b @ replicate k sep" and nb: "sep \<notin> set b"
    and x: "x = [] \<or> last x = sep"
    using basename_decompose [OF assms(1,2)] by blast
  obtain ss where ss: "splitOn sep q = ss @ b # replicate k []"
    using splitOn_shape [OF nb x] q by blast
  have qne: "q \<noteq> []" using q assms(2) by simp
  define ab where "ab = isAbsolute q"
  define ns where "ns = normalizeSegments (\<not> ab) [] ss"
  have segs: "normalizeSegments (\<not> ab) [] (splitOn sep q) = ns @ [b]"
    unfolding ss ns_def by (rule normalizeSegments_last [OF assms(2,3,4)])
  define p where "p = (if ns = [] then [] else joinWith [sep] ns @ [sep])"
  have path: "joinWith [sep] (ns @ [b]) = p @ b"
    by (simp add: joinWith_snoc p_def)
  have p: "p = [] \<or> last p = sep" by (simp add: p_def)
  have pne: "p @ b \<noteq> []" using assms(2) by simp
  define a where "a = (if ab then [sep] else [])"
  define j where "j = (if last q = sep then Suc 0 else 0)"
  have "normalize q = (a @ p) @ b @ replicate j sep"
    unfolding normalize_def Let_def ab_def [symmetric] segs path
    using qne assms(2) by (auto simp: a_def j_def)
  moreover have "a @ p = [] \<or> last (a @ p) = sep"
    using p by (auto simp: a_def)
  then have "basename ((a @ p) @ b @ replicate j sep) = b"
    by (rule basename_shape [OF assms(2) nb])
  ultimately show ?thesis
    by simp
qed

lemma basename_prepend:
  assumes "basename file = b" "b \<noteq> []"
  shows "basename (dir @ sep # file) = b"
proof -
  obtain x k where q: "file = x @ b @ replicate k sep" and nb: "sep \<notin> set b"
    and x: "x = [] \<or> last x = sep"
    using basename_decompose [OF assms] by blast
  have "dir @ sep # x = [] \<or> last (dir @ sep # x) = sep"
    using x by auto
  then have "basename ((dir @ sep # x) @ b @ replicate k sep) = b"
    by (rule basename_shape [OF assms(2) nb])
  then show ?thesis
    by (simp add: q)
qed

lemma basename_pathJoin:
  assumes "basename file \<noteq> []" "basename file \<noteq> ''.''" "basename file \<noteq> ''..''"
  shows "basename (pathJoin [dir, file]) = basename file"
proof -
  have fne: "file \<noteq> []"
    using assms(1) by (auto simp: basename_def)
  show ?thesis
  proof (cases "dir = []")
    case True
    then have "pathJoin [dir, file] = normalize file"
      using fne by (simp add: pathJoin_def)
    then show ?thesis
      using basename_normalize [OF refl assms] by simp
  next
    case False
    then have "pathJoin [dir, file] = normalize (dir @ sep # file)"
      using fne by (simp add: pathJoin_def)
    moreover have "basename (dir @ sep # file) = basename file"
      by (rule basename_prepend [OF refl assms(1)])
    ultimately show ?thesis
      using basename_normalize [of "dir @ sep # file" "basename file"] assms by simp
  qed
qed

lemma basename_idem: "basename (basename p) = basename p"
proof (cases "basename p = []")
  case True
  then show ?thesis by (simp add: basename_def)
next
  case False
  obtain x k where "p = x @ basename p @ replicate k sep" and nb: "sep \<notin> set (basename p)"
    using basename_decompose [OF refl False] by blast
  have "basename ([] @ basename p @ replicate 0 sep) = basename p"
    by (rule basename_shape [OF False nb]) simp
  then show ?thesis by simp
qed

lemma pathJoin_nonempty: "pathJoin args \<noteq> []"
  by (auto simp: pathJoin_def normalize_def Let_def)

subsection \<open>The framework structure\<close>

lemma findIndex_append:
  "\<forall>x \<in> set xs. \<not> P x \<Longrightarrow> P y \<Longrightarrow> findIndex P (xs @ y # ys) = Some (length xs)"
  by (induction xs) auto

text \<open>
  C9, as amended. For a directory whose path has a \<open>Sources\<close> segment that is not its
  first one, \<open>frameworkSubFolder\<close> is the joined path of all the segments after the last
  \<open>Sources\<close> segment, the last segment of the directory included; it is the empty
  string exactly when the directory is the \<open>Sources\<close> folder itself. The framework
  name is the segment before \<open>Sources\<close> and the framework path ends with it.
\<close>

theorem frameworkSubFolder_after_Sources:
  assumes "split dir = pre @ ''Sources'' # post" and "''Sources'' \<notin> set post" and "pre \<noteq> []"
  shows "getFrameworkStructure dir =
           Inr (Some \<lparr> frameworkPath = pathJoin pre, frameworkName = last pre,
                       frameworkSubFolder = (if post = [] then '''' else pathJoin post) \<rparr>)
         \<and> ((if post = [] then '''' else pathJoin post) = '''' \<longleftrightarrow> post = [])"
proof -
  have rv: "rev (split dir) = rev post @ ''Sources'' # rev pre"
    using assms(1) by simp
  have "findIndex (\<lambda>folderName. folderName = ''Sources'') (rev post @ ''Sources'' # rev pre)
          = Some (length (rev post))"
    by (rule findIndex_append) (use assms(2) in auto)
  then have idx: "findIndex (\<lambda>folderName. folderName = ''Sources'')
                    (rev post @ ''Sources'' # rev pre) = Some (length post)"
    by simp
  obtain ps p where pre: "pre = ps @ [p]"
    using assms(3) by (meson rev_exhaust)
  have "getFrameworkStructure dir =
           Inr (Some \<lparr> frameworkPath = pathJoin pre, frameworkName = last pre,
                       frameworkSubFolder = (if post = [] then '''' else pathJoin post) \<rparr>)"
    unfolding getFrameworkStructure_def Let_def rv idx
    by (simp add: pre)
  then show ?thesis
    by (simp add: pathJoin_nonempty)
qed

theorem frameworkSubFolder_after_Sources_witness:
  "getFrameworkStructure ''Fwk/Sources/Fwk/Sub'' =
     Inr (Some \<lparr> frameworkPath = ''Fwk'', frameworkName = ''Fwk'', frameworkSubFolder = ''Fwk/Sub'' \<rparr>)"
proof -
  have a: "split ''Fwk/Sources/Fwk/Sub'' = [''Fwk''] @ ''Sources'' # [''Fwk'', ''Sub'']"
    by code_simp
  have b: "''Sources'' \<notin> set [''Fwk'', ''Sub'']"
    by simp
  have c: "[''Fwk''] \<noteq> ([] :: string list)"
    by simp
  have j1: "pathJoin [''Fwk''] = ''Fwk''" by code_simp
  have j2: "pathJoin [''Fwk'', ''Sub''] = ''Fwk/Sub''" by code_simp
  show ?thesis
    using frameworkSubFolder_after_Sources [OF a b c] by (simp add: j1 j2)
qed

text \<open>
  C9, as stated, fails: for a directory directly under \<open>Sources/Fwk\<close>, and for the
  directory \<open>Sources/Fwk\<close> itself, the sub-folder is not empty and holds the last
  segment of the directory.
\<close>

theorem frameworkSubFolder_counterexample:
  "getFrameworkStructure ''Fwk/Sources/Fwk'' =
     Inr (Some \<lparr> frameworkPath = ''Fwk'', frameworkName = ''Fwk'', frameworkSubFolder = ''Fwk'' \<rparr>)
   \<and> getFrameworkStructure ''Fwk/Sources/Fwk/Sub'' =
     Inr (Some \<lparr> frameworkPath = ''Fwk'', frameworkName = ''Fwk'', frameworkSubFolder = ''Fwk/Sub'' \<rparr>)"
  by code_simp

subsection \<open>The header of a source file\<close>

text \<open>
  C7. In the framework fallback, when the probe under \<open>Headers\<close> and the probe under
  \<open>PrivateHeaders\<close> both find a header, the one found under \<open>Headers\<close> is returned.
\<close>

theorem framework_headers_priority:
  assumes "getFrameworkStructure (dirname src) = Inr (Some fs)"
    and "searchFileWithBasename readdir (headerFolderPath fs ''Headers'') (getFileBasename src)
           isHeaderFile = Resolved (Some h)"
    and "searchFileWithBasename readdir (headerFolderPath fs ''PrivateHeaders'')
           (getFileBasename src) isHeaderFile = Resolved (Some h')"
  shows "getRelatedHeaderForSourceFromFramework readdir src = Resolved (Some h)"
  using assms by (simp add: getRelatedHeaderForSourceFromFramework_def)

theorem framework_headers_priority_witness:
  "getRelatedHeaderForSourceFromFramework bothHeadersTree ''Fwk/Sources/Sub/Foo.m''
     = Resolved (Some ''Fwk/Headers/Fwk/Sub/Foo.h'')"
proof -
  let ?fs = "\<lparr> frameworkPath = ''Fwk'', frameworkName = ''Fwk'', frameworkSubFolder = ''Sub'' \<rparr>"
  have a: "getFrameworkStructure (dirname ''Fwk/Sources/Sub/Foo.m'') = Inr (Some ?fs)"
    by code_simp
  have b: "searchFileWithBasename bothHeadersTree (headerFolderPath ?fs ''Headers'')
             (getFileBasename ''Fwk/Sources/Sub/Foo.m'') isHeaderFile
           = Resolved (Some ''Fwk/Headers/Fwk/Sub/Foo.h'')"
    by code_simp
  have c: "searchFileWithBasename bothHeadersTree (headerFolderPath ?fs ''PrivateHeaders'')
             (getFileBasename ''Fwk/Sources/Sub/Foo.m'') isHeaderFile
           = Resolved (Some ''Fwk/PrivateHeaders/Fwk/Sub/Foo.hpp'')"
    by code_simp
  show ?thesis
    by (rule framework_headers_priority [OF a b c])
qed

text \<open>
  C2, as stated, fails: with the files \<open>Fwk/Sources/Fwk/Sub/Foo.m\<close> and
  \<open>Fwk/Headers/Sub/Foo.h\<close>, no header is found for the source.
\<close>

theorem framework_layout_counterexample:
  "frameworkTree ''Fwk/Headers/Sub'' = Resolved [''Foo.h''] \<and>
   frameworkTree ''Fwk/Sources/Fwk/Sub'' = Resolved [''Foo.m''] \<and>
   getRelatedHeaderForSource frameworkTree ''Fwk/Sources/Fwk/Sub/Foo.m'' = Resolved None"
  by code_simp

text \<open>
  C2, as amended. The framework fallback probes
  \<open>frameworkPath/Headers/frameworkName/frameworkSubFolder\<close>, which for
  \<open>Fwk/Sources/Fwk/Sub/Foo.m\<close> is \<open>Fwk/Headers/Fwk/Fwk/Sub\<close>: with the header at
  \<open>Fwk/Headers/Fwk/Fwk/Sub/Foo.h\<close>, that path is returned.
\<close>

theorem framework_layout_probed:
  "getRelatedHeaderForSource probedFrameworkTree ''Fwk/Sources/Fwk/Sub/Foo.m''
     = Resolved (Some ''Fwk/Headers/Fwk/Fwk/Sub/Foo.h'')"
  by code_simp

text \<open>
  C3, as amended. For a file \<open>f\<close> classified as a source, the header returned is the
  first entry, in the order of the listing of the directory of \<open>f\<close>, that is classified
  as a header and has the basename of \<open>f\<close>; it is \<open>h\<close> when \<open>h\<close> is the only such
  entry.
\<close>

theorem sibling_header_first:
  assumes "isSourceFile f"
    and "readdir (dirname f) = Resolved (pre @ name # post)"
    and "isHeaderFile name" and "getFileBasename name = getFileBasename f"
    and "\<forall>g \<in> set pre. \<not> (isHeaderFile g \<and> getFileBasename g = getFileBasename f)"
  shows "getRelatedHeaderForSource readdir f = Resolved (Some (pathJoin [dirname f, name]))"
proof -
  have "firstMatch (dirname f) (getFileBasename f) isHeaderFile (pre @ name # post)
          = Some (pathJoin [dirname f, name])"
    using assms(3,4) firstMatch_skip [OF assms(5)] by simp
  then show ?thesis
    by (simp add: getRelatedHeaderForSource_def searchFileWithBasename_def assms(2))
qed

theorem sibling_header_first_witness:
  "getRelatedHeaderForSource siblingTree ''proj/Foo.m'' = Resolved (Some ''proj/Foo.h'')"
proof -
  have a: "isSourceFile ''proj/Foo.m''" by code_simp
  have b: "siblingTree (dirname ''proj/Foo.m'') = Resolved ([''Foo.m''] @ ''Foo.h'' # [''Foo.hpp''])"
    by code_simp
  have c: "isHeaderFile ''Foo.h''" by code_simp
  have d: "getFileBasename ''Foo.h'' = getFileBasename ''proj/Foo.m''" by code_simp
  have e: "\<forall>g \<in> set [''Foo.m'']. \<not> (isHeaderFile g \<and> getFileBasename g = getFileBasename ''proj/Foo.m'')"
    by code_simp
  have j: "pathJoin [dirname ''proj/Foo.m'', ''Foo.h''] = ''proj/Foo.h''" by code_simp
  show ?thesis
    using sibling_header_first
            [where f = "''proj/Foo.m''" and readdir = siblingTree and pre = "[''Foo.m'']"
               and name = "''Foo.h''" and post = "[''Foo.hpp'']", OF a b c d e]
    by (simp add: j)
qed

text \<open>
  C3, as stated, fails: \<open>proj/Foo.hpp\<close> is a header in the directory of the source
  \<open>proj/Foo.m\<close> with the same basename, and the header returned is \<open>proj/Foo.h\<close>,
  which the listing has first.
\<close>

theorem sibling_header_counterexample:
  "isSourceFile ''proj/Foo.m'' \<and>
   siblingTree (dirname ''proj/Foo.m'') = Resolved [''Foo.m'', ''Foo.h'', ''Foo.hpp''] \<and>
   isHeaderFile ''Foo.hpp'' \<and>
   getFileBasename ''Foo.hpp'' = getFileBasename ''proj/Foo.m'' \<and>
   pathJoin [dirname ''proj/Foo.m'', ''Foo.hpp''] = ''proj/Foo.hpp'' \<and>
   getRelatedHeaderForSource siblingTree ''proj/Foo.m'' = Resolved (Some ''proj/Foo.h'')"
  by code_simp

lemma isHeaderFile_basename_proper:
  assumes "isHeaderFile file"
  shows "basename file \<noteq> [] \<and> basename file \<noteq> ''.'' \<and> basename file \<noteq> ''..''"
proof -
  have "\<not> isHeaderFile file" if "basename file = [] \<or> basename file = ''.'' \<or> basename file = ''..''"
    using that by (auto simp: isHeaderFile_def extensionOf_def HEADER_EXTENSIONS_def dot_def toLowerChar_def)
  with assms show ?thesis by blast
qed

lemma header_entry_companion:
  assumes "isHeaderFile file"
  shows "basename (pathJoin [dir, file]) = basename file"
    and "isHeaderFile (pathJoin [dir, file])"
    and "getFileBasename (pathJoin [dir, file]) = getFileBasename file"
proof -
  show b: "basename (pathJoin [dir, file]) = basename file"
    using isHeaderFile_basename_proper [OF assms] by (intro basename_pathJoin) auto
  show "isHeaderFile (pathJoin [dir, file])"
    using assms by (simp add: isHeaderFile_def b)
  show "getFileBasename (pathJoin [dir, file]) = getFileBasename file"
    by (simp add: getFileBasename_def b)
qed

lemma isHeaderFile_basename: "isHeaderFile (basename p) = isHeaderFile p"
  by (simp add: isHeaderFile_def basename_idem)

text \<open>
  C10. Every path that \<^verbatim>\<open>getRelatedHeaderForSource\<close> returns, from the probe of the
  directory of the source or from the framework fallback, has a file name that is
  classified as a header, and has the basename of the source.
\<close>

theorem related_header_is_companion:
  assumes "getRelatedHeaderForSource readdir src = Resolved (Some p)"
  shows "isHeaderFile (basename p) \<and> isHeaderFile p \<and> getFileBasename p = getFileBasename src"
proof -
  have probe: "\<exists>dir. searchFileWithBasename readdir dir (getFileBasename src) isHeaderFile
                      = Resolved (Some p)"
  proof (cases "searchFileWithBasename readdir (dirname src) (getFileBasename src) isHeaderFile")
    case (Resolved r)
    show ?thesis
    proof (cases r)
      case (Some header)
      with Resolved assms have "header = p"
        by (simp add: getRelatedHeaderForSource_def)
      with Resolved Some show ?thesis by blast
    next
      case None
      with Resolved assms have fw: "getRelatedHeaderForSourceFromFramework readdir src = Resolved (Some p)"
        by (simp add: getRelatedHeaderForSource_def)
      then obtain fs where fs: "getFrameworkStructure (dirname src) = Inr (Some fs)"
        by (auto simp: getRelatedHeaderForSourceFromFramework_def split: sum.splits option.splits)
      let ?probe = "\<lambda>folder. searchFileWithBasename readdir (headerFolderPath fs folder)
                               (getFileBasename src) isHeaderFile"
      from fw fs obtain h1 h2 where "?probe ''Headers'' = Resolved h1"
        and "?probe ''PrivateHeaders'' = Resolved h2" and "findNonNull [h1, h2] = Some p"
        by (auto simp: getRelatedHeaderForSourceFromFramework_def split: promise.splits)
      then have "?probe ''Headers'' = Resolved (Some p) \<or> ?probe ''PrivateHeaders'' = Resolved (Some p)"
        by (cases h1; cases h2) auto
      then show ?thesis by blast
    qed
  next
    case (Rejected e)
    with assms show ?thesis by (simp add: getRelatedHeaderForSource_def)
  next
    case Pending
    with assms show ?thesis by (simp add: getRelatedHeaderForSource_def)
  qed
  then obtain dir entry where "isHeaderFile entry"
    and "getFileBasename entry = getFileBasename src" and "p = pathJoin [dir, entry]"
    by (blast dest: searchFileWithBasename_Some)
  then show ?thesis
    using header_entry_companion [of entry dir]
    by (simp add: isHeaderFile_basename)
qed

theorem related_header_is_companion_witness:
  "isHeaderFile (basename ''Fwk/Headers/Fwk/Sub/Foo.h'') \<and>
   isHeaderFile ''Fwk/Headers/Fwk/Sub/Foo.h'' \<and>
   getFileBasename ''Fwk/Headers/Fwk/Sub/Foo.h'' = getFileBasename ''Fwk/Sources/Sub/Foo.m''"
proof -
  have a: "getRelatedHeaderForSource bothHeadersTree ''Fwk/Sources/Sub/Foo.m''
             = Resolved (Some ''Fwk/Headers/Fwk/Sub/Foo.h'')"
    by code_simp
  show ?thesis
    by (rule related_header_is_companion [OF a])
qed

subsection \<open>Lines of the scan\<close>

lemma split_at_NUL:
  assumes "NUL \<notin> set filename"
  shows "NUL \<in> set (filename @ NUL # rest)"
    and "takeWhile (\<lambda>c. c \<noteq> NUL) (filename @ NUL # rest) = filename"
    and "tl (dropWhile (\<lambda>c. c \<noteq> NUL) (filename @ NUL # rest)) = rest"
proof -
  show "NUL \<in> set (filename @ NUL # rest)" by simp
  have "takeWhile (\<lambda>c. c \<noteq> NUL) (filename @ NUL # rest)
          = filename @ takeWhile (\<lambda>c. c \<noteq> NUL) (NUL # rest)"
    by (rule takeWhile_append2) (use assms in auto)
  then show "takeWhile (\<lambda>c. c \<noteq> NUL) (filename @ NUL # rest) = filename" by simp
  have "dropWhile (\<lambda>c. c \<noteq> NUL) (filename @ NUL # rest)
          = dropWhile (\<lambda>c. c \<noteq> NUL) (NUL # rest)"
    by (rule dropWhile_append2) (use assms in auto)
  then show "tl (dropWhile (\<lambda>c. c \<noteq> NUL) (filename @ NUL # rest)) = rest" by simp
qed

lemma regexExec_angled:
  assumes "list_all isSpace ws"
  shows "regexExec regex (includeAngled (relativePathLiteral regex) @ ws)
           = Some (relativePathLiteral regex, None)"
proof -
  have "matchLiteral (relativePathLiteral regex) (relativePathLiteral regex @ CHR ''>'' # ws)"
    using assms by (simp add: matchLiteral_def)
  then show ?thesis
    by (simp add: regexExec_def includeAngled_def isSpace_def dquote_def)
qed

text \<open>
  C6. A line of the scan that names a file classified as a source and includes, between
  angle brackets, the path of the header relative to the project root is accepted,
  whatever the file and its directory are: no path is resolved and no directory is
  read. The tree search emits the file at once and completes.
\<close>

theorem root_relative_include_accepted:
  assumes "isSourceFile filename" and "NUL \<notin> set filename" and "list_all isSpace ws"
  shows "processGrepResult (filename @ NUL # includeAngled (relative projectRoot headerFile) @ ws)
           headerFile (includePattern headerFile projectRoot) = Some filename
       \<and> findIncludingSourceFile
           ((t, Next (Stdout (filename @ NUL # includeAngled (relative projectRoot headerFile) @ ws)))
              # ns) headerFile projectRoot
         = [(t, Next (Some filename)), (t, Complete)]"
proof -
  let ?regex = "includePattern headerFile projectRoot"
  have rel: "relative projectRoot headerFile = relativePathLiteral ?regex"
    by (simp add: includePattern_def)
  have "regexExec ?regex (includeAngled (relative projectRoot headerFile) @ ws)
          = Some (relative projectRoot headerFile, None)"
    unfolding rel by (rule regexExec_angled [OF assms(3)])
  then have accept: "processGrepResult
      (filename @ NUL # includeAngled (relative projectRoot headerFile) @ ws) headerFile ?regex
        = Some filename"
    using assms(1) by (simp add: processGrepResult_def split_at_NUL [OF assms(2)])
  then show ?thesis
    by (simp add: findIncludingSourceFile_def)
qed

theorem root_relative_include_accepted_witness:
  "findIncludingSourceFile (scanOf ''root/a/b/sub/y.m'' (includeAngled ''a/b/x.h''))
     ''root/a/b/x.h'' ''root'' = [(1, Next (Some ''root/a/b/sub/y.m'')), (1, Complete)]"
proof -
  have a: "isSourceFile ''root/a/b/sub/y.m''" by code_simp
  have b: "NUL \<notin> set ''root/a/b/sub/y.m''" by code_simp
  have c: "list_all isSpace [CHR 0x0A]" by code_simp
  have r: "relative ''root'' ''root/a/b/x.h'' = ''a/b/x.h''" by code_simp
  show ?thesis
    using root_relative_include_accepted
            [where filename = "''root/a/b/sub/y.m''" and ws = "[CHR 0x0A]"
               and projectRoot = "''root''" and headerFile = "''root/a/b/x.h''"
               and t = 1 and ns = "[(2, Next Exit), (2, Complete)]", OF a b c]
    by (simp add: r scanOf_def grepLine_def)
qed

text \<open>
  C1, as stated, fails: the line \<open>#include "../../a/b/x.h"\<close> of \<open>root/c/y.m\<close> is not
  matched by the pattern, which takes the file name of the header right after the
  ascents, and the tree search emits null when the scan exits. So it does for
  \<open>#include "../a/b/x.h"\<close>, the path that resolves from \<open>root/c\<close> to the header.
\<close>

theorem relative_include_counterexample:
  "isSourceFile ''root/c/y.m'' \<and>
   processGrepResult (grepLine ''root/c/y.m'' (includeQuoted ''../../a/b/x.h''))
     ''root/a/b/x.h'' (includePattern ''root/a/b/x.h'' ''root'') = None \<and>
   findIncludingSourceFile (scanOf ''root/c/y.m'' (includeQuoted ''../../a/b/x.h''))
     ''root/a/b/x.h'' ''root'' = [(2, Next None), (2, Complete)] \<and>
   normalize (pathJoin [dirname ''root/c/y.m'', ''../a/b/x.h'']) = ''root/a/b/x.h'' \<and>
   findIncludingSourceFile (scanOf ''root/c/y.m'' (includeQuoted ''../a/b/x.h''))
     ''root/a/b/x.h'' ''root'' = [(2, Next None), (2, Complete)]"
  by code_simp

lemma basename_no_sep: "sep \<notin> set (basename p)"
proof -
  have "sep \<notin> set (takeWhile (\<lambda>x. x \<noteq> sep) (dropWhile (\<lambda>x. x = sep) (rev p)))"
    by (auto dest: set_takeWhileD)
  then show ?thesis by (simp add: basename_def)
qed

lemma space_chars:
  "\<not> isSpace dquote" "\<not> isSpace (CHR ''>'')" "\<not> isSpace sep"
  by (simp_all add: isSpace_def dquote_def sep_def)

lemma matchClose_spaces: "list_all isSpace s \<Longrightarrow> \<not> matchClose s"
  by (cases s) (auto simp: space_chars)

lemma matchLiteral_quoted:
  assumes "list_all isSpace ws"
  shows "matchLiteral lit (inc @ dquote # ws) \<longleftrightarrow> lit = inc"
proof
  assume "lit = inc"
  then show "matchLiteral lit (inc @ dquote # ws)"
    using assms by (simp add: matchLiteral_def)
next
  assume m: "matchLiteral lit (inc @ dquote # ws)"
  then have tk: "take (length lit) (inc @ dquote # ws) = lit"
    and cl: "matchClose (drop (length lit) (inc @ dquote # ws))"
    by (simp_all add: matchLiteral_def)
  consider "length lit < length inc" | "length lit = length inc" | "length inc < length lit"
    by linarith
  then show "lit = inc"
  proof cases
    case 1
    then obtain c r where d: "drop (length lit) inc = c # r"
      by (cases "drop (length lit) inc") auto
    from 1 have "drop (length lit) (inc @ dquote # ws) = c # r @ dquote # ws"
      by (simp add: d)
    with cl have "list_all isSpace (r @ dquote # ws)" by simp
    then show ?thesis by (simp add: space_chars)
  next
    case 2
    with tk show ?thesis by simp
  next
    case 3
    then obtain n where n: "length lit - length inc = Suc n"
      by (cases "length lit - length inc") auto
    from 3 have "drop (length lit) (inc @ dquote # ws) = drop n ws"
      by (simp add: n)
    moreover have "list_all isSpace (drop n ws)"
      using assms by (auto simp: list_all_iff dest: in_set_dropD)
    ultimately show ?thesis
      using cl matchClose_spaces by simp
  qed
qed

lemma matchAscents_no_sep:
  "sep \<notin> set s \<Longrightarrow>
   matchAscents base s = (if matchLiteral base s then Some (base, None) else None)"
  by (cases "(base, s)" rule: matchAscents.cases) auto

lemma matchAscents_up:
  "matchAscents base (''../'' @ s) =
     (case matchAscents base s of
        Some (m1, m2) \<Rightarrow> Some (''../'' @ m1, Some (case m2 of None \<Rightarrow> ''../'' | Some g \<Rightarrow> g))
      | None \<Rightarrow> if matchLiteral base (''../'' @ s) then Some (base, None) else None)"
  by (simp add: isLineTerminator_def sep_def split: option.splits)

lemma matchAscents_ascents:
  assumes "sep \<notin> set base" and "list_all isSpace ws"
  shows "matchAscents base (ascents k @ base @ dquote # ws)
           = Some (ascents k @ base, if k = 0 then None else Some ''../'')"
proof (induction k)
  case 0
  have "sep \<notin> set (base @ dquote # ws)"
    using assms space_chars by (auto simp: list_all_iff dquote_def sep_def)
  moreover have "matchLiteral base (base @ dquote # ws)"
    using matchLiteral_quoted [OF assms(2), of base base] by simp
  ultimately show ?case
    by (simp add: matchAscents_no_sep)
next
  case (Suc k)
  have "matchAscents base (''../'' @ (ascents k @ base @ dquote # ws))
          = Some (''../'' @ (ascents k @ base), Some ''../'')"
    unfolding matchAscents_up Suc.IH by simp
  then show ?case by simp
qed

lemma regexExec_quoted:
  assumes "list_all isSpace ws"
  shows "regexExec regex (includeQuoted inc @ ws) =
           (if relativePathLiteral regex = inc then Some (inc, None)
            else matchAscents (basenameLiteral regex) (inc @ dquote # ws))"
proof -
  have "\<not> isSpace (CHR ''#'')" "isSpace (CHR 0x20)"
    by (simp_all add: isSpace_def)
  then show ?thesis
    using matchLiteral_quoted [OF assms, of "relativePathLiteral regex" inc] space_chars(1)
    by (auto simp: regexExec_def includeQuoted_def Let_def)
qed

text \<open>
  C1, as amended. For every header, project root and file classified as a source
  (its name without \<open>NUL\<close>), a line of the scan whose include is one or more ascents
  \<open>../\<close> followed by the file name of the header is accepted exactly when that path,
  joined to the directory of the file and normalised, is the header, or is itself the
  path of the header relative to the project root; when the line is the first
  notification of the scan, the tree search then emits the file at once and completes.
  Otherwise the line is rejected and the tree search goes on as if it had not come. For
  the header \<open>root/a/b/x.h\<close>, a line that includes \<open>../wrong/x.h\<close> is rejected in every
  such file.
\<close>

theorem relative_include_verified:
  assumes "isSourceFile filename" and "NUL \<notin> set filename" and "list_all isSpace ws"
    and "0 < k"
  shows "processGrepResult
           (filename @ NUL # includeQuoted (ascents k @ basename headerFile) @ ws)
           headerFile (includePattern headerFile projectRoot)
         = (if relative projectRoot headerFile = ascents k @ basename headerFile
               \<or> normalize (pathJoin [dirname filename, ascents k @ basename headerFile])
                   = headerFile
            then Some filename else None)
       \<and> findIncludingSourceFile
           ((t, Next (Stdout (filename @ NUL # includeQuoted (ascents k @ basename headerFile) @ ws)))
              # ns) headerFile projectRoot
         = (if relative projectRoot headerFile = ascents k @ basename headerFile
               \<or> normalize (pathJoin [dirname filename, ascents k @ basename headerFile])
                   = headerFile
            then [(t, Next (Some filename)), (t, Complete)]
            else findIncludingSourceFile ns headerFile projectRoot)
       \<and> processGrepResult (filename @ NUL # includeQuoted ''../wrong/x.h'' @ ws)
           ''root/a/b/x.h'' (includePattern ''root/a/b/x.h'' ''root'') = None"
proof -
  let ?regex = "includePattern headerFile projectRoot"
  let ?inc = "ascents k @ basename headerFile"
  let ?line = "filename @ NUL # includeQuoted ?inc @ ws"
  have lits: "relativePathLiteral ?regex = relative projectRoot headerFile"
    "basenameLiteral ?regex = basename headerFile"
    by (simp_all add: includePattern_def)
  have "matchAscents (basename headerFile) (?inc @ dquote # ws) = Some (?inc, Some ''../'')"
    using matchAscents_ascents [OF basename_no_sep assms(3), of headerFile k] assms(4) by simp
  then have exec: "regexExec ?regex (includeQuoted ?inc @ ws) =
      (if relative projectRoot headerFile = ?inc then Some (?inc, None)
       else Some (?inc, Some ''../''))"
    by (simp add: regexExec_quoted [OF assms(3)] lits)
  have 1: "processGrepResult ?line headerFile ?regex
         = (if relative projectRoot headerFile = ?inc
               \<or> normalize (pathJoin [dirname filename, ?inc]) = headerFile
            then Some filename else None)"
    using assms(1) by (simp add: processGrepResult_def split_at_NUL [OF assms(2)] exec)
  have 2: "findIncludingSourceFile ((t, Next (Stdout ?line)) # ns) headerFile projectRoot
         = (if relative projectRoot headerFile = ?inc
               \<or> normalize (pathJoin [dirname filename, ?inc]) = headerFile
            then [(t, Next (Some filename)), (t, Complete)]
            else findIncludingSourceFile ns headerFile projectRoot)"
    by (simp add: findIncludingSourceFile_def 1)
  let ?wregex = "includePattern ''root/a/b/x.h'' ''root''"
  have wl: "relativePathLiteral ?wregex = ''a/b/x.h''" "basenameLiteral ?wregex = ''x.h''"
    by code_simp+
  have "matchAscents ''x.h'' (''../wrong/x.h'' @ dquote # ws) = None"
    by (simp add: matchLiteral_def isLineTerminator_def sep_def)
  then have "regexExec ?wregex (includeQuoted ''../wrong/x.h'' @ ws) = None"
    by (simp add: regexExec_quoted [OF assms(3)] wl)
  then have 3: "processGrepResult (filename @ NUL # includeQuoted ''../wrong/x.h'' @ ws)
           ''root/a/b/x.h'' ?wregex = None"
    by (simp add: processGrepResult_def split_at_NUL [OF assms(2)])
  show ?thesis
    using 1 2 3 by (intro conjI)
qed

theorem relative_include_verified_witness:
  "findIncludingSourceFile (scanOf ''root/a/b/c/d/y.m'' (includeQuoted ''../../x.h''))
     ''root/a/b/x.h'' ''root'' = [(1, Next (Some ''root/a/b/c/d/y.m'')), (1, Complete)]
   \<and> processGrepResult (grepLine ''root/a/b/c/d/y.m'' (includeQuoted ''../x.h''))
       ''root/a/b/x.h'' (includePattern ''root/a/b/x.h'' ''root'') = None
   \<and> processGrepResult (grepLine ''root/a/b/c/d/y.m'' (includeQuoted ''../wrong/x.h''))
       ''root/a/b/x.h'' (includePattern ''root/a/b/x.h'' ''root'') = None"
proof -
  have a: "isSourceFile ''root/a/b/c/d/y.m''" by code_simp
  have b: "NUL \<notin> set ''root/a/b/c/d/y.m''" by code_simp
  have c: "list_all isSpace [CHR 0x0A]" by code_simp
  have k2: "(0::nat) < 2" and k1: "(0::nat) < 1" by simp_all
  have i2: "ascents 2 @ basename ''root/a/b/x.h'' = ''../../x.h''" by code_simp
  have i1: "ascents 1 @ basename ''root/a/b/x.h'' = ''../x.h''" by code_simp
  have r: "relative ''root'' ''root/a/b/x.h'' = ''a/b/x.h''" by code_simp
  have n2: "normalize (pathJoin [dirname ''root/a/b/c/d/y.m'', ''../../x.h'']) = ''root/a/b/x.h''"
    by code_simp
  have n1: "normalize (pathJoin [dirname ''root/a/b/c/d/y.m'', ''../x.h'']) = ''root/a/b/c/x.h''"
    by code_simp
  have "findIncludingSourceFile (scanOf ''root/a/b/c/d/y.m'' (includeQuoted ''../../x.h''))
     ''root/a/b/x.h'' ''root'' = [(1, Next (Some ''root/a/b/c/d/y.m'')), (1, Complete)]"
    using relative_include_verified
            [where filename = "''root/a/b/c/d/y.m''" and ws = "[CHR 0x0A]" and k = 2
               and headerFile = "''root/a/b/x.h''" and projectRoot = "''root''"
               and t = 1 and ns = "[(2, Next Exit), (2, Complete)]", OF a b c k2]
    unfolding i2 r n2 by (simp add: scanOf_def grepLine_def)
  moreover have "processGrepResult (grepLine ''root/a/b/c/d/y.m'' (includeQuoted ''../x.h''))
       ''root/a/b/x.h'' (includePattern ''root/a/b/x.h'' ''root'') = None
     \<and> processGrepResult (grepLine ''root/a/b/c/d/y.m'' (includeQuoted ''../wrong/x.h''))
       ''root/a/b/x.h'' (includePattern ''root/a/b/x.h'' ''root'') = None"
    using relative_include_verified
            [where filename = "''root/a/b/c/d/y.m''" and ws = "[CHR 0x0A]" and k = 1
               and headerFile = "''root/a/b/x.h''" and projectRoot = "''root''"
               and t = 1 and ns = "[]", OF a b c k1]
    unfolding i1 r n1 by (simp add: grepLine_def)
  ultimately show ?thesis by (rule conjI)
qed

subsection \<open>The tree search\<close>

lemma flatMapMessages_skip:
  "list_all (yieldsNothing headerFile regex) pre \<Longrightarrow>
   flatMapMessages headerFile regex (catchAsMessage (pre @ ns))
     = flatMapMessages headerFile regex (catchAsMessage ns)"
proof (induction pre)
  case Nil
  then show ?case by simp
next
  case (Cons x pre)
  obtain t n where x: "x = (t, n)" by (cases x)
  with Cons.prems have "yieldsNothing headerFile regex (t, n)" by simp
  then obtain data where "n = Next (Stdout data) \<and> processGrepResult data headerFile regex = None
      \<or> n = Next (Stderr data)"
    by (cases "(headerFile, regex, (t, n))" rule: yieldsNothing.cases) auto
  with Cons x show ?case by auto
qed

lemma findIncludingSourceFile_skip:
  "list_all (yieldsNothing headerFile (includePattern headerFile projectRoot)) pre \<Longrightarrow>
   findIncludingSourceFile (pre @ ns) headerFile projectRoot
     = findIncludingSourceFile ns headerFile projectRoot"
  by (simp add: findIncludingSourceFile_def flatMapMessages_skip)

lemma takeOne_shape:
  "takeOne ns = [] \<or> (\<exists>t e. takeOne ns = [(t, Error e)]) \<or> (\<exists>t. takeOne ns = [(t, Complete)])
   \<or> (\<exists>t v. takeOne ns = [(t, Next v), (t, Complete)])"
proof (cases ns)
  case Nil
  then show ?thesis by simp
next
  case (Cons x xs)
  obtain t n where "x = (t, n)" by (cases x)
  with Cons show ?thesis by (cases n) auto
qed

text \<open>
  C5. The observable of the tree search emits at most one value, and completes at once
  when it emits one. The value is the file of the first accepted line when nothing but
  rejected lines and messages of kind \<^verbatim>\<open>stderr\<close> came before it, and is null, emitted
  once, when the process exits after nothing but those.
\<close>

theorem findIncludingSourceFile_take_one:
  "length (filter isNext (findIncludingSourceFile grepProcess headerFile projectRoot)) \<le> 1
   \<and> ((t, Next v) \<in> set (findIncludingSourceFile grepProcess headerFile projectRoot) \<longrightarrow>
        findIncludingSourceFile grepProcess headerFile projectRoot = [(t, Next v), (t, Complete)])
   \<and> (grepProcess = pre @ (t1, Next (Stdout data)) # post
        \<and> list_all (yieldsNothing headerFile (includePattern headerFile projectRoot)) pre
        \<and> processGrepResult data headerFile (includePattern headerFile projectRoot) = Some accepted \<longrightarrow>
        findIncludingSourceFile grepProcess headerFile projectRoot
          = [(t1, Next (Some accepted)), (t1, Complete)])
   \<and> (grepProcess = pre @ (t2, Next Exit) # post
        \<and> list_all (yieldsNothing headerFile (includePattern headerFile projectRoot)) pre \<longrightarrow>
        findIncludingSourceFile grepProcess headerFile projectRoot
          = [(t2, Next None), (t2, Complete)])"
proof -
  let ?regex = "includePattern headerFile projectRoot"
  let ?out = "findIncludingSourceFile grepProcess headerFile projectRoot"
  have out: "?out = takeOne (flatMapMessages headerFile ?regex (catchAsMessage grepProcess))"
    by (simp add: findIncludingSourceFile_def)
  have shape: "?out = [] \<or> (\<exists>t e. ?out = [(t, Error e)]) \<or> (\<exists>t. ?out = [(t, Complete)])
      \<or> (\<exists>t v. ?out = [(t, Next v), (t, Complete)])"
    unfolding out by (rule takeOne_shape)
  have 1: "length (filter isNext ?out) \<le> 1"
    using shape by auto
  have 2: "(t, Next v) \<in> set ?out \<longrightarrow> ?out = [(t, Next v), (t, Complete)]"
    using shape by auto
  have 3: "?out = [(t1, Next (Some accepted)), (t1, Complete)]"
    if "grepProcess = pre @ (t1, Next (Stdout data)) # post"
      and "list_all (yieldsNothing headerFile ?regex) pre"
      and "processGrepResult data headerFile ?regex = Some accepted"
    unfolding that(1) findIncludingSourceFile_skip [OF that(2)]
    using that(3) by (simp add: findIncludingSourceFile_def)
  have 4: "?out = [(t2, Next None), (t2, Complete)]"
    if "grepProcess = pre @ (t2, Next Exit) # post"
      and "list_all (yieldsNothing headerFile ?regex) pre"
    unfolding that(1) findIncludingSourceFile_skip [OF that(2)]
    by (simp add: findIncludingSourceFile_def)
  show ?thesis
    using 1 2 3 4 by blast
qed

theorem findIncludingSourceFile_take_one_witness:
  "findIncludingSourceFile busyScan ''root/a/b/x.h'' ''root''
     = [(3, Next (Some ''root/a/b/c/y.m'')), (3, Complete)]
   \<and> findIncludingSourceFile fruitlessScan ''root/a/b/x.h'' ''root''
     = [(5, Next None), (5, Complete)]"
proof -
  let ?regex = "includePattern ''root/a/b/x.h'' ''root''"
  have pre: "list_all (yieldsNothing ''root/a/b/x.h'' ?regex) scanPrefix"
    by code_simp
  have acc: "processGrepResult acceptedData ''root/a/b/x.h'' ?regex = Some ''root/a/b/c/y.m''"
    by code_simp
  have busy: "busyScan = scanPrefix @ (3, Next (Stdout acceptedData))
       # [(4, Next (Stdout (grepLine ''root/a/b/w.m'' (includeAngled ''a/b/x.h'')))),
          (5, Next Exit), (5, Complete)]"
    by (simp add: busyScan_def)
  have fruitless: "fruitlessScan = scanPrefix @ (5, Next Exit) # [(5, Complete)]"
    by (simp add: fruitlessScan_def)
  have "findIncludingSourceFile busyScan ''root/a/b/x.h'' ''root''
     = [(3, Next (Some ''root/a/b/c/y.m'')), (3, Complete)]"
    using findIncludingSourceFile_take_one
            [where grepProcess = busyScan and headerFile = "''root/a/b/x.h''"
               and projectRoot = "''root''" and pre = scanPrefix and ?t1.0 = 3
               and data = acceptedData and accepted = "''root/a/b/c/y.m''"
               and post = "[(4, Next (Stdout (grepLine ''root/a/b/w.m'' (includeAngled ''a/b/x.h'')))),
                            (5, Next Exit), (5, Complete)]"]
          pre acc busy
    by blast
  moreover have "findIncludingSourceFile fruitlessScan ''root/a/b/x.h'' ''root''
     = [(5, Next None), (5, Complete)]"
    using findIncludingSourceFile_take_one
            [where grepProcess = fruitlessScan and headerFile = "''root/a/b/x.h''"
               and projectRoot = "''root''" and pre = scanPrefix and ?t2.0 = 5
               and post = "[(5, Complete)]"]
          pre fruitless
    by blast
  ultimately show ?thesis by (rule conjI)
qed

subsection \<open>The source of a header\<close>

lemma toPromise_never_rejected: "toPromise v (catchAsNull ns) \<noteq> Rejected e"
proof (induction ns arbitrary: v)
  case Nil
  then show ?case by simp
next
  case (Cons x ns)
  obtain t n where "x = (t, n)" by (cases x)
  with Cons show ?case by (cases n) auto
qed

lemma searchFileWithBasename_never_rejected:
  "searchFileWithBasename readdir dir base condition \<noteq> Rejected e"
  by (simp add: searchFileWithBasename_def split: promise.splits)

lemma timeout_resolves_null:
  "\<not> arrivesBefore due ns \<Longrightarrow> toPromise v (catchAsNull (timeout due 0 ns)) = Resolved None"
proof (cases ns)
  case Nil
  then show ?thesis by simp
next
  case (Cons x xs)
  obtain t n where "x = (t, n)" by (cases x)
  moreover assume "\<not> arrivesBefore due ns"
  ultimately show ?thesis using Cons by simp
qed

lemma error_resolves_null:
  "toPromise v (catchAsNull (timeout due 0 [(t, Error e)])) = Resolved None"
  by simp

text \<open>
  C4. The promise of \<^verbatim>\<open>findSourceFileForHeader\<close> is never rejected. When the directory
  of the header holds no source of its basename, the promise is resolved with null if
  no notification of the tree search arrives before \<open>INCLUDE_SEARCH_TIMEOUT\<close>, and if
  the process fails after nothing but rejected lines and messages of kind
  \<^verbatim>\<open>stderr\<close>.
\<close>

theorem findSourceFileForHeader_never_rejects:
  "findSourceFileForHeader readdir grepProcess header projectRoot \<noteq> Rejected e
   \<and> (searchFileWithBasename readdir (dirname header) (getFileBasename header) isSourceFile
         = Resolved None
        \<and> \<not> arrivesBefore INCLUDE_SEARCH_TIMEOUT
              (findIncludingSourceFile grepProcess header projectRoot) \<longrightarrow>
        findSourceFileForHeader readdir grepProcess header projectRoot = Resolved None)
   \<and> (searchFileWithBasename readdir (dirname header) (getFileBasename header) isSourceFile
         = Resolved None
        \<and> grepProcess = pre @ (t, Error failure) # post
        \<and> list_all (yieldsNothing header (includePattern header projectRoot)) pre \<longrightarrow>
        findSourceFileForHeader readdir grepProcess header projectRoot = Resolved None)"
proof -
  let ?probe = "searchFileWithBasename readdir (dirname header) (getFileBasename header) isSourceFile"
  let ?out = "findIncludingSourceFile grepProcess header projectRoot"
  let ?regex = "includePattern header projectRoot"
  have fallback: "findSourceFileForHeader readdir grepProcess header projectRoot
      = toPromise None (catchAsNull (timeout INCLUDE_SEARCH_TIMEOUT 0 ?out))"
    if "?probe = Resolved None"
    using that by (simp add: findSourceFileForHeader_def)
  have 1: "findSourceFileForHeader readdir grepProcess header projectRoot \<noteq> Rejected e"
  proof (cases ?probe)
    case (Resolved r)
    then show ?thesis
      by (cases r) (simp_all add: findSourceFileForHeader_def toPromise_never_rejected)
  next
    case (Rejected e')
    then show ?thesis using searchFileWithBasename_never_rejected by blast
  next
    case Pending
    then show ?thesis by (simp add: findSourceFileForHeader_def)
  qed
  have 2: "findSourceFileForHeader readdir grepProcess header projectRoot = Resolved None"
    if "?probe = Resolved None" and "\<not> arrivesBefore INCLUDE_SEARCH_TIMEOUT ?out"
    unfolding fallback [OF that(1)] by (rule timeout_resolves_null [OF that(2)])
  have 3: "findSourceFileForHeader readdir grepProcess header projectRoot = Resolved None"
    if "?probe = Resolved None" and "grepProcess = pre @ (t, Error failure) # post"
      and "list_all (yieldsNothing header ?regex) pre"
  proof -
    have "?out = [(t, Error (Failure (errorToString failure)))]"
      unfolding that(2) findIncludingSourceFile_skip [OF that(3)]
      by (simp add: findIncludingSourceFile_def)
    then show ?thesis
      unfolding fallback [OF that(1)] by (simp only: error_resolves_null)
  qed
  show ?thesis
    using 1 2 3 by blast
qed

theorem findSourceFileForHeader_never_rejects_witness:
  "findSourceFileForHeader headerOnlyTree lateScan ''root/a/b/x.h'' ''root'' = Resolved None
   \<and> findSourceFileForHeader headerOnlyTree failingScan ''root/a/b/x.h'' ''root'' = Resolved None"
proof -
  let ?regex = "includePattern ''root/a/b/x.h'' ''root''"
  have probe: "searchFileWithBasename headerOnlyTree (dirname ''root/a/b/x.h'')
                 (getFileBasename ''root/a/b/x.h'') isSourceFile = Resolved None"
    by code_simp
  have late: "\<not> arrivesBefore INCLUDE_SEARCH_TIMEOUT
                  (findIncludingSourceFile lateScan ''root/a/b/x.h'' ''root'')"
    by code_simp
  have pre: "list_all (yieldsNothing ''root/a/b/x.h'' ?regex) scanPrefix"
    by code_simp
  have failing: "failingScan = scanPrefix @ (3, Error (Failure ''spawn grep ENOENT'')) # []"
    by (simp add: failingScan_def)
  have "findSourceFileForHeader headerOnlyTree lateScan ''root/a/b/x.h'' ''root'' = Resolved None"
    using findSourceFileForHeader_never_rejects
            [where readdir = headerOnlyTree and grepProcess = lateScan
               and header = "''root/a/b/x.h''" and projectRoot = "''root''"]
          probe late
    by blast
  moreover have "findSourceFileForHeader headerOnlyTree failingScan ''root/a/b/x.h'' ''root''
                   = Resolved None"
    using findSourceFileForHeader_never_rejects
            [where readdir = headerOnlyTree and grepProcess = failingScan
               and header = "''root/a/b/x.h''" and projectRoot = "''root''"
               and pre = scanPrefix and t = 3 and failure = "Failure ''spawn grep ENOENT''"
               and post = "[]"]
          probe pre failing
    by blast
  ultimately show ?thesis by (rule conjI)
qed

end
